theory Spec2Isabelle
  imports Main
begin

section \<open>Data model of \<open>restore_lamp.py\<close>\<close>

text \<open>
  The script reads a JSON document, looks every key up in the host's object registry
  and assigns three vector attributes on each object it finds. Numbers are never
  computed with, only handed on, so their type is left open as \<open>'n\<close>.
\<close>

type_synonym 'n vec3 = "'n \<times> 'n \<times> 'n"

text \<open>
  A value as \<open>json.load\<close> returns it. A Python dict keeps its keys in insertion order,
  so an object is an association list; a dict never holds a key twice, which theorems
  that need it assume as \<open>distinct (map fst kvs)\<close>.
\<close>

datatype 'n json =
    JNull
  | JBool bool
  | JNumber 'n
  | JString string
  | JArray "'n json list"
  | JObject "(string \<times> 'n json) list"

datatype py_error =
    IsADirectoryError
  | JSONDecodeError
  | AttributeError
  | KeyError string
  | TypeError
  | HostRejection

text \<open>What a call leaves behind: \<open>Inr ()\<close> is a normal return (of \<open>None\<close>), \<open>Inl e\<close> an
  exception that nobody caught.\<close>

type_synonym outcome = "py_error + unit"

datatype fs_node = File string | Directory

type_synonym filesystem = "string \<Rightarrow> fs_node option"

text \<open>
  An object of the host's scene. The script names four of its attributes; everything else
  an object carries is the extension part \<open>more\<close> of the record.
\<close>

record 'n scene_object =
  name :: string
  location :: "'n vec3"
  rotation_euler :: "'n vec3"
  scale :: "'n vec3"

text \<open>The state the script acts on: the registry \<open>bpy.data.objects\<close> and the lines printed
  so far.\<close>

record ('n, 'm) world =
  objects :: "('n, 'm) scene_object_scheme list"
  console :: "string list"

section \<open>The operations\<close>

definition state_path :: string where
  "state_path = ''/Users/andresguarnizo/Projects/Personal_Website/lamp_assembled_state.json''"

definition print :: "string \<Rightarrow> ('n, 'm) world \<Rightarrow> ('n, 'm) world" where
  "print line w = w\<lparr>console := console w @ [line]\<rparr>"

fun index_of :: "'a list \<Rightarrow> 'a \<Rightarrow> nat option" where
  "index_of [] k = None"
| "index_of (x # xs) k = (if x = k then Some 0 else map_option Suc (index_of xs k))"

text \<open>\<open>bpy.data.objects.get(obj_name)\<close>: the first object of that name, as a handle (its
  position in the registry), or \<open>None\<close>.\<close>

definition objects_get :: "('n, 'm) scene_object_scheme list \<Rightarrow> string \<Rightarrow> nat option" where
  "objects_get os obj_name = index_of (map name os) obj_name"

text \<open>\<open>state.items()\<close>: only a dict has the method.\<close>

fun items :: "'n json \<Rightarrow> py_error + (string \<times> 'n json) list" where
  "items (JObject kvs) = Inr kvs"
| "items _ = Inl AttributeError"

text \<open>\<open>transforms[key]\<close> for a string key: a dict raises \<open>KeyError\<close> when the key is
  missing, every other JSON value raises \<open>TypeError\<close>.\<close>

fun getitem :: "'n json \<Rightarrow> string \<Rightarrow> py_error + 'n json" where
  "getitem (JObject kvs) key = (case map_of kvs key of None \<Rightarrow> Inl (KeyError key) | Some v \<Rightarrow> Inr v)"
| "getitem _ key = Inl TypeError"

text \<open>
  Modelled from the spec: the host's vector attributes (\<open>bpy\<close> is not part of the
  repository). The spec gives them as "per-object settable fields of 3-component
  numeric-vector type" and lets the host refuse any other value; the three components
  are stored as they are given.
\<close>

fun to_vector :: "'n json \<Rightarrow> py_error + 'n vec3" where
  "to_vector (JArray [JNumber x, JNumber y, JNumber z]) = Inr (x, y, z)"
| "to_vector _ = Inl HostRejection"

definition setattr ::
  "('n vec3 \<Rightarrow> ('n, 'm) scene_object_scheme \<Rightarrow> ('n, 'm) scene_object_scheme) \<Rightarrow>
   nat \<Rightarrow> 'n json \<Rightarrow> ('n, 'm) world \<Rightarrow> outcome \<times> ('n, 'm) world" where
  "setattr upd obj v w =
     (case to_vector v of
        Inl e \<Rightarrow> (Inl e, w)
      | Inr t \<Rightarrow> (Inr (), w\<lparr>objects := (objects w)[obj := upd t (objects w ! obj)]\<rparr>))"

text \<open>One statement \<open>obj.attr = transforms[key]\<close>: the subscript is evaluated first.\<close>

definition assign ::
  "('n vec3 \<Rightarrow> ('n, 'm) scene_object_scheme \<Rightarrow> ('n, 'm) scene_object_scheme) \<Rightarrow>
   nat \<Rightarrow> 'n json \<Rightarrow> string \<Rightarrow> ('n, 'm) world \<Rightarrow> outcome \<times> ('n, 'm) world" where
  "assign upd obj transforms key w =
     (case getitem transforms key of
        Inl e \<Rightarrow> (Inl e, w)
      | Inr v \<Rightarrow> setattr upd obj v w)"

text \<open>Statement sequencing: an exception skips what follows and keeps the state reached.\<close>

definition and_then ::
  "outcome \<times> 'w \<Rightarrow> ('w \<Rightarrow> outcome \<times> 'w) \<Rightarrow> outcome \<times> 'w" where
  "and_then r f = (case r of (Inl e, w) \<Rightarrow> (Inl e, w) | (Inr u, w) \<Rightarrow> f w)"

text \<open>The body of the \<open>for\<close> loop.\<close>

definition restore_entry ::
  "('n, 'm) world \<Rightarrow> string \<times> 'n json \<Rightarrow> outcome \<times> ('n, 'm) world" where
  "restore_entry w kv =
     (case kv of (obj_name, transforms) \<Rightarrow>
        (case objects_get (objects w) obj_name of
           None \<Rightarrow> (Inr (), w)
         | Some obj \<Rightarrow>
             and_then (assign (\<lambda>t ob. ob\<lparr>location := t\<rparr>) obj transforms ''location'' w) (\<lambda>w.
             and_then (assign (\<lambda>t ob. ob\<lparr>rotation_euler := t\<rparr>) obj transforms ''rotation_euler'' w) (\<lambda>w.
             and_then (assign (\<lambda>t ob. ob\<lparr>scale := t\<rparr>) obj transforms ''scale'' w) (\<lambda>w.
             (Inr (), print (''Restored '' @ obj_name) w))))))"

fun restore_items ::
  "('n, 'm) world \<Rightarrow> (string \<times> 'n json) list \<Rightarrow> outcome \<times> ('n, 'm) world" where
  "restore_items w [] = (Inr (), w)"
| "restore_items w (kv # kvs) = and_then (restore_entry w kv) (\<lambda>w. restore_items w kvs)"

text \<open>
  The function of the script. The parser \<open>json.load\<close> and the file system are not the
  script's: they are the parameters \<open>json_load\<close> and \<open>fs\<close>.
\<close>

definition restore_assembled_state ::
  "(string \<Rightarrow> py_error + 'n json) \<Rightarrow> filesystem \<Rightarrow> ('n, 'm) world \<Rightarrow> outcome \<times> ('n, 'm) world" where
  "restore_assembled_state json_load fs w =
     (case fs state_path of
        None \<Rightarrow> (Inr (), print (''Error: '' @ state_path @ '' not found.'') w)
      | Some Directory \<Rightarrow> (Inl IsADirectoryError, w)
      | Some (File doc) \<Rightarrow>
          (case json_load doc of
             Inl e \<Rightarrow> (Inl e, w)
           | Inr state \<Rightarrow>
               (case items state of
                  Inl e \<Rightarrow> (Inl e, w)
                | Inr kvs \<Rightarrow> restore_items w kvs)))"

section \<open>The saved state as the specification describes it\<close>

text \<open>A triple of numbers, and a record holding one under each of the three keys.\<close>

fun as_triple :: "'n json \<Rightarrow> 'n vec3 option" where
  "as_triple (JArray [JNumber x, JNumber y, JNumber z]) = Some (x, y, z)"
| "as_triple _ = None"

fun field_triple :: "'n json \<Rightarrow> string \<Rightarrow> 'n vec3 option" where
  "field_triple (JObject kvs) key = (case map_of kvs key of None \<Rightarrow> None | Some v \<Rightarrow> as_triple v)"
| "field_triple _ key = None"

definition transform_record :: "'n json \<Rightarrow> ('n vec3 \<times> 'n vec3 \<times> 'n vec3) option" where
  "transform_record r =
     (case field_triple r ''location'' of None \<Rightarrow> None | Some l \<Rightarrow>
     (case field_triple r ''rotation_euler'' of None \<Rightarrow> None | Some e \<Rightarrow>
     (case field_triple r ''scale'' of None \<Rightarrow> None | Some s \<Rightarrow> Some (l, e, s))))"

text \<open>The exception that one statement \<open>obj.attr = transforms[key]\<close> raises when it
  raises: the one of the subscript, or else the host's refusal of the value.\<close>

abbreviation raised :: "'n json \<Rightarrow> string \<Rightarrow> py_error" where
  "raised transforms key \<equiv>
     (case getitem transforms key of Inl e \<Rightarrow> e | Inr v \<Rightarrow> HostRejection)"

section \<open>Descriptions of an effect, used in the proofs\<close>

text \<open>
  Every run of the script changes the registry in one way only: it overwrites some of the
  three vector attributes of some objects with fixed values. A patch records, per handle,
  which attributes are overwritten and with what.
\<close>

type_synonym 'n patch = "'n vec3 option \<times> 'n vec3 option \<times> 'n vec3 option"

definition patch_object :: "'n patch \<Rightarrow> ('n, 'm) scene_object_scheme \<Rightarrow> ('n, 'm) scene_object_scheme" where
  "patch_object p ob =
     (case p of (l, e, s) \<Rightarrow>
        ob\<lparr>location := (case l of None \<Rightarrow> location ob | Some t \<Rightarrow> t),
           rotation_euler := (case e of None \<Rightarrow> rotation_euler ob | Some t \<Rightarrow> t),
           scale := (case s of None \<Rightarrow> scale ob | Some t \<Rightarrow> t)\<rparr>)"

definition apply_patch :: "(nat \<Rightarrow> 'n patch) \<Rightarrow> ('n, 'm) scene_object_scheme list \<Rightarrow> ('n, 'm) scene_object_scheme list" where
  "apply_patch P os = map (\<lambda>i. patch_object (P i) (os ! i)) [0..<length os]"

definition no_patch :: "'n patch" where
  "no_patch = (None, None, None)"

definition later :: "'a option \<Rightarrow> 'a option \<Rightarrow> 'a option" where
  "later a b = (case b of None \<Rightarrow> a | Some y \<Rightarrow> Some y)"

definition patch_then :: "'n patch \<Rightarrow> 'n patch \<Rightarrow> 'n patch" where
  "patch_then p q = (case p of (l, e, s) \<Rightarrow> (case q of (l', e', s') \<Rightarrow> (later l l', later e e', later s s')))"

text \<open>
  A piece of the script has an effect on the worlds whose objects bear the names \<open>ns\<close>
  when its outcome, its patch and the lines it prints are the same for all of them, and
  the patch leaves every handle outside \<open>H\<close> alone.
\<close>

definition effect ::
  "string list \<Rightarrow> nat set \<Rightarrow> (('n, 'm) world \<Rightarrow> outcome \<times> ('n, 'm) world) \<Rightarrow> bool" where
  "effect ns H f \<longleftrightarrow>
     (\<exists>res P out. (\<forall>i. i \<notin> H \<longrightarrow> P i = no_patch) \<and>
        (\<forall>w. map name (objects w) = ns \<longrightarrow>
           f w = (res, w\<lparr>objects := apply_patch P (objects w), console := console w @ out\<rparr>)))"

text \<open>The handles that the names in \<open>K\<close> stand for, and the keys of the saved state.\<close>

definition handles :: "string list \<Rightarrow> string set \<Rightarrow> nat set" where
  "handles ns K = {i. \<exists>n \<in> K. index_of ns n = Some i}"

definition saved_keys :: "(string \<Rightarrow> py_error + 'n json) \<Rightarrow> filesystem \<Rightarrow> string set" where
  "saved_keys json_load fs =
     {n. \<exists>doc kvs. fs state_path = Some (File doc) \<and> json_load doc = Inr (JObject kvs) \<and>
           n \<in> fst ` set kvs}"

text \<open>No entry that finds its object has a record of the wrong shape; the lines one
  complete pass prints.\<close>

definition well_shaped ::
  "('n, 'm) scene_object_scheme list \<Rightarrow> (string \<times> 'n json) list \<Rightarrow> bool" where
  "well_shaped os kvs \<longleftrightarrow>
     (\<forall>(n, r) \<in> set kvs. objects_get os n \<noteq> None \<longrightarrow> transform_record r \<noteq> None)"

definition reports ::
  "('n, 'm) scene_object_scheme list \<Rightarrow> (string \<times> 'n json) list \<Rightarrow> string list" where
  "reports os kvs =
     map (\<lambda>n. ''Restored '' @ n) (filter (\<lambda>n. objects_get os n \<noteq> None) (map fst kvs))"

section \<open>A small scene and some documents\<close>

text \<open>
  The example of the specification: a record for \<open>Obj1\<close>, and a scene that holds
  \<open>Obj1\<close> at another transform next to a camera. \<open>demo_load\<close> stands for the
  parser on five documents, named rather than spelled out.
\<close>

definition obj1_record :: "int json" where
  "obj1_record = JObject
     [(''location'', JArray [JNumber 1, JNumber 2, JNumber 3]),
      (''rotation_euler'', JArray [JNumber 0, JNumber 0, JNumber 0]),
      (''scale'', JArray [JNumber 1, JNumber 1, JNumber 1])]"

definition location_only :: "int json" where
  "location_only = JObject [(''location'', JArray [JNumber 1, JNumber 2, JNumber 3])]"

definition demo_load :: "string \<Rightarrow> py_error + int json" where
  "demo_load doc =
     (if doc = ''obj1'' then Inr (JObject [(''Obj1'', obj1_record)])
      else if doc = ''lamp'' then
        Inr (JObject [(''Obj1'', obj1_record), (''Gone'', obj1_record), (''Camera'', obj1_record)])
      else if doc = ''lamp_present'' then
        Inr (JObject [(''Obj1'', obj1_record), (''Camera'', obj1_record)])
      else if doc = ''broken'' then Inr (JObject [(''Obj1'', location_only)])
      else if doc = ''{}'' then Inr (JObject [])
      else Inl JSONDecodeError)"

definition demo_fs :: "string \<Rightarrow> filesystem" where
  "demo_fs doc = (\<lambda>path. if path = state_path then Some (File doc) else None)"

definition demo_world :: "(int, unit) world" where
  "demo_world =
     \<lparr>objects =
        [\<lparr>name = ''Obj1'', location = (7, 8, 9), rotation_euler = (4, 5, 6), scale = (2, 2, 2)\<rparr>,
         \<lparr>name = ''Camera'', location = (0, 0, 5), rotation_euler = (0, 0, 0), scale = (3, 3, 3)\<rparr>],
      console = []\<rparr>"

text \<open>
  A lamp of three parts, and a state whose second record has a \<open>rotation_euler\<close> of two
  components only.
\<close>

definition half_done :: "int json" where
  "half_done = JObject
     [(''location'', JArray [JNumber 1, JNumber 2, JNumber 3]),
      (''rotation_euler'', JArray [JNumber 0, JNumber 0]),
      (''scale'', JArray [JNumber 1, JNumber 1, JNumber 1])]"

definition lamp_load :: "string \<Rightarrow> py_error + int json" where
  "lamp_load doc =
     (if doc = ''lamp'' then
        Inr (JObject [(''Base'', obj1_record), (''Shade'', half_done), (''Bulb'', obj1_record)])
      else if doc = ''base'' then Inr (JObject [(''Base'', obj1_record)])
      else if doc = ''list'' then Inr (JArray [])
      else Inl JSONDecodeError)"

definition lamp_world :: "(int, unit) world" where
  "lamp_world =
     \<lparr>objects =
        [\<lparr>name = ''Base'', location = (7, 7, 7), rotation_euler = (8, 8, 8), scale = (9, 9, 9)\<rparr>,
         \<lparr>name = ''Shade'', location = (4, 4, 4), rotation_euler = (5, 5, 5), scale = (6, 6, 6)\<rparr>,
         \<lparr>name = ''Bulb'', location = (3, 3, 3), rotation_euler = (2, 2, 2), scale = (1, 1, 1)\<rparr>],
      console = []\<rparr>"

section \<open>Lemmas\<close>

lemma index_of_Some: "index_of xs k = Some i \<Longrightarrow> i < length xs \<and> xs ! i = k"
  by (induction xs arbitrary: i) (auto split: if_splits)

lemma index_of_None: "index_of xs k = None \<longleftrightarrow> k \<notin> set xs"
  by (induction xs) auto

lemma objects_get_Some:
  "objects_get os n = Some i \<Longrightarrow> i < length os \<and> name (os ! i) = n"
  unfolding objects_get_def by (auto dest: index_of_Some)

lemma patch_object_none [simp]: "patch_object no_patch ob = ob"
  by (simp add: patch_object_def no_patch_def)

lemma patch_object_name [simp]: "name (patch_object p ob) = name ob"
  by (cases p) (simp add: patch_object_def)

lemma patch_object_more [simp]: "scene_object.more (patch_object p ob) = scene_object.more ob"
  by (cases p) (simp add: patch_object_def)

lemma patch_object_then: "patch_object q (patch_object p ob) = patch_object (patch_then p q) ob"
  by (cases p; cases q) (auto simp: patch_object_def patch_then_def later_def split: option.splits)

lemma patch_then_same [simp]: "patch_then p p = p"
  by (cases p) (auto simp: patch_then_def later_def split: option.splits)

lemma patch_then_none [simp]: "patch_then no_patch no_patch = no_patch"
  by simp

lemma length_apply_patch [simp]: "length (apply_patch P os) = length os"
  by (simp add: apply_patch_def)

lemma nth_apply_patch [simp]:
  "i < length os \<Longrightarrow> apply_patch P os ! i = patch_object (P i) (os ! i)"
  by (simp add: apply_patch_def)

lemma names_apply_patch [simp]: "map name (apply_patch P os) = map name os"
  by (rule nth_equalityI) simp_all

lemma apply_patch_none [simp]: "apply_patch (\<lambda>i. no_patch) os = os"
  by (rule nth_equalityI) simp_all

lemma apply_patch_then:
  "apply_patch Q (apply_patch P os) = apply_patch (\<lambda>i. patch_then (P i) (Q i)) os"
  by (rule nth_equalityI) (simp_all add: patch_object_then)

lemma apply_patch_twice: "apply_patch P (apply_patch P os) = apply_patch P os"
  by (simp add: apply_patch_then)

lemma update_as_patch:
  assumes "\<And>ob. upd t ob = patch_object p ob"
  shows "os[i := upd t (os ! i)] = apply_patch (\<lambda>j. if j = i then p else no_patch) os"
  by (rule nth_equalityI) (simp_all add: assms nth_list_update)

lemma effectI:
  assumes "\<And>i. i \<notin> H \<Longrightarrow> P i = no_patch"
    and "\<And>w. map name (objects w) = ns \<Longrightarrow>
           f w = (res, w\<lparr>objects := apply_patch P (objects w), console := console w @ out\<rparr>)"
  shows "effect ns H f"
  unfolding effect_def using assms by blast

lemma effect_const: "effect ns {} (\<lambda>w. (res, w))"
  by (rule effectI [where P = "\<lambda>i. no_patch" and out = "[]"]) simp_all

lemma effect_print: "effect ns {} (\<lambda>w. (Inr (), print line w))"
  by (rule effectI [where P = "\<lambda>i. no_patch" and out = "[line]"]) (simp_all add: print_def)

lemma effect_mono: "effect ns H f \<Longrightarrow> H \<subseteq> H' \<Longrightarrow> effect ns H' f"
  unfolding effect_def by (meson subsetD)

lemma effect_cong:
  "effect ns H g \<Longrightarrow> (\<And>w. map name (objects w) = ns \<Longrightarrow> f w = g w) \<Longrightarrow> effect ns H f"
  unfolding effect_def by simp

lemma effect_and_then:
  assumes "effect ns H f" and "effect ns H g"
  shows "effect ns H (\<lambda>w. and_then (f w) g)"
proof -
  from assms(1) obtain res P out where
    P: "\<And>i. i \<notin> H \<Longrightarrow> P i = no_patch" and
    f: "\<And>w. map name (objects w) = ns \<Longrightarrow>
           f w = (res, w\<lparr>objects := apply_patch P (objects w), console := console w @ out\<rparr>)"
    unfolding effect_def by blast
  from assms(2) obtain res' Q out' where
    Q: "\<And>i. i \<notin> H \<Longrightarrow> Q i = no_patch" and
    g: "\<And>w. map name (objects w) = ns \<Longrightarrow>
           g w = (res', w\<lparr>objects := apply_patch Q (objects w), console := console w @ out'\<rparr>)"
    unfolding effect_def by blast
  show ?thesis
  proof (cases res)
    case (Inl e)
    show ?thesis
      by (rule effectI [where P = P and out = out and res = res])
         (simp_all add: P f Inl and_then_def)
  next
    case (Inr u)
    show ?thesis
      by (rule effectI [where P = "\<lambda>i. patch_then (P i) (Q i)" and out = "out @ out'" and res = res'])
         (simp_all add: P Q f g Inr and_then_def apply_patch_then)
  qed
qed

lemma effect_setattr:
  assumes "\<And>t. \<exists>p. \<forall>ob. upd t ob = patch_object p ob"
  shows "effect ns {i} (setattr upd i v)"
proof (cases "to_vector v")
  case (Inl e)
  have "effect ns {} (setattr upd i v)"
    by (rule effect_cong [OF effect_const [where res = "Inl e"]]) (simp add: setattr_def Inl)
  then show ?thesis by (rule effect_mono) simp
next
  case (Inr t)
  from assms obtain p where p: "\<And>ob. upd t ob = patch_object p ob" by blast
  show ?thesis
    by (rule effectI [where P = "\<lambda>j. if j = i then p else no_patch" and out = "[]" and res = "Inr ()"])
       (simp_all add: setattr_def Inr update_as_patch [of upd t p, OF p])
qed

lemma effect_assign:
  assumes "\<And>t. \<exists>p. \<forall>ob. upd t ob = patch_object p ob"
  shows "effect ns {i} (assign upd i r key)"
proof (cases "getitem r key")
  case (Inl e)
  have "effect ns {} (assign upd i r key)"
    by (rule effect_cong [OF effect_const [where res = "Inl e"]]) (simp add: assign_def Inl)
  then show ?thesis by (rule effect_mono) simp
next
  case (Inr v)
  show ?thesis
    by (rule effect_cong [OF effect_setattr [of upd ns i v, OF assms]]) (simp add: assign_def Inr)
qed

lemma location_patch: "\<exists>p. \<forall>ob. ob\<lparr>location := t\<rparr> = patch_object p ob"
  by (rule exI [where x = "(Some t, None, None)"]) (simp add: patch_object_def)

lemma rotation_patch: "\<exists>p. \<forall>ob. ob\<lparr>rotation_euler := t\<rparr> = patch_object p ob"
  by (rule exI [where x = "(None, Some t, None)"]) (simp add: patch_object_def)

lemma scale_patch: "\<exists>p. \<forall>ob. ob\<lparr>scale := t\<rparr> = patch_object p ob"
  by (rule exI [where x = "(None, None, Some t)"]) (simp add: patch_object_def)

lemma handles_mono: "K \<subseteq> K' \<Longrightarrow> handles ns K \<subseteq> handles ns K'"
  unfolding handles_def by blast

lemma effect_entry: "effect ns (handles ns {fst kv}) (\<lambda>w. restore_entry w kv)"
proof (cases kv)
  case (Pair n r)
  show ?thesis
  proof (cases "index_of ns n")
    case None
    have "effect ns {} (\<lambda>w. restore_entry w kv)"
      by (rule effect_cong [OF effect_const [where res = "Inr ()"]])
         (simp add: restore_entry_def Pair objects_get_def None)
    then show ?thesis by (rule effect_mono) simp
  next
    case (Some i)
    let ?l = "assign (\<lambda>t ob. ob\<lparr>location := t\<rparr>) i r ''location''"
    let ?e = "assign (\<lambda>t ob. ob\<lparr>rotation_euler := t\<rparr>) i r ''rotation_euler''"
    let ?s = "assign (\<lambda>t ob. ob\<lparr>scale := t\<rparr>) i r ''scale''"
    let ?p = "\<lambda>w. (Inr (), print (''Restored '' @ n) w)"
    have l: "effect ns {i} ?l" by (rule effect_assign) (rule location_patch)
    have e: "effect ns {i} ?e" by (rule effect_assign) (rule rotation_patch)
    have s: "effect ns {i} ?s" by (rule effect_assign) (rule scale_patch)
    have p: "effect ns {i} ?p" by (rule effect_mono [OF effect_print]) simp
    have "effect ns {i} (\<lambda>w. and_then (?l w) (\<lambda>w. and_then (?e w) (\<lambda>w. and_then (?s w) ?p)))"
      by (intro effect_and_then l e s p)
    then have "effect ns {i} (\<lambda>w. restore_entry w kv)"
      by (rule effect_cong) (simp add: restore_entry_def Pair objects_get_def Some)
    then show ?thesis
      by (rule effect_mono) (simp add: handles_def Pair Some)
  qed
qed

lemma effect_items: "effect ns (handles ns (fst ` set kvs)) (\<lambda>w :: ('n, 'm) world. restore_items w kvs)"
proof (induction kvs)
  case Nil
  have "effect ns {} (\<lambda>w :: ('n, 'm) world. restore_items w [])"
    by (rule effect_cong [OF effect_const [where res = "Inr ()"]]) simp
  then show ?case by (rule effect_mono) simp
next
  case (Cons kv kvs)
  have 1: "effect ns (handles ns (fst ` set (kv # kvs))) (\<lambda>w :: ('n, 'm) world. restore_entry w kv)"
    by (rule effect_mono [OF effect_entry], rule handles_mono) simp
  have 2: "effect ns (handles ns (fst ` set (kv # kvs))) (\<lambda>w :: ('n, 'm) world. restore_items w kvs)"
    using Cons.IH by (rule effect_mono) (rule handles_mono, auto)
  have "effect ns (handles ns (fst ` set (kv # kvs)))
          (\<lambda>w :: ('n, 'm) world. and_then (restore_entry w kv) (\<lambda>w :: ('n, 'm) world. restore_items w kvs))"
    by (rule effect_and_then [OF 1 2])
  then show ?case by simp
qed

lemma effect_main:
  "effect ns (handles ns (saved_keys json_load fs))
     (restore_assembled_state json_load fs :: ('n, 'm) world \<Rightarrow> outcome \<times> ('n, 'm) world)"
proof -
  let ?f = "restore_assembled_state json_load fs :: ('n, 'm) world \<Rightarrow> outcome \<times> ('n, 'm) world"
  consider (missing) "fs state_path = None"
    | (dir) "fs state_path = Some Directory"
    | (bad) doc e where "fs state_path = Some (File doc)" "json_load doc = Inl e"
    | (other) doc state e where "fs state_path = Some (File doc)" "json_load doc = Inr state"
        "items state = Inl e"
    | (dict) doc kvs where "fs state_path = Some (File doc)" "json_load doc = Inr (JObject kvs)"
  proof (cases "fs state_path")
    case None
    then show ?thesis using missing by blast
  next
    case (Some node)
    show ?thesis
    proof (cases node)
      case Directory
      with Some show ?thesis using dir by blast
    next
      case (File doc)
      show ?thesis
      proof (cases "json_load doc")
        case (Inl e)
        with Some File show ?thesis using bad by blast
      next
        case (Inr state)
        show ?thesis
        proof (cases state)
          case (JObject kvs)
          with Some File Inr show ?thesis using dict by blast
        qed (use Some File Inr other in \<open>simp_all\<close>)
      qed
    qed
  qed
  then show ?thesis
  proof cases
    case missing
    have "effect ns {} ?f"
      by (rule effect_cong [OF effect_print [where line = "''Error: '' @ state_path @ '' not found.''"]])
         (simp add: restore_assembled_state_def missing)
    then show ?thesis by (rule effect_mono) simp
  next
    case dir
    have "effect ns {} ?f"
      by (rule effect_cong [OF effect_const [where res = "Inl IsADirectoryError"]])
         (simp add: restore_assembled_state_def dir)
    then show ?thesis by (rule effect_mono) simp
  next
    case bad
    have "effect ns {} ?f"
      by (rule effect_cong [OF effect_const [where res = "Inl e"]])
         (simp add: restore_assembled_state_def bad)
    then show ?thesis by (rule effect_mono) simp
  next
    case other
    have "effect ns {} ?f"
      by (rule effect_cong [OF effect_const [where res = "Inl e"]])
         (simp add: restore_assembled_state_def other)
    then show ?thesis by (rule effect_mono) simp
  next
    case dict
    have "effect ns (handles ns (fst ` set kvs)) ?f"
      by (rule effect_cong [OF effect_items [where kvs = kvs]])
         (simp add: restore_assembled_state_def dict)
    then show ?thesis
      by (rule effect_mono) (rule handles_mono, auto simp: saved_keys_def dict)
  qed
qed

text \<open>What an effect gives for one run.\<close>

lemma effect_run:
  assumes "effect (map name (objects w)) H f"
  obtains res P out where
    "\<And>i. i \<notin> H \<Longrightarrow> P i = no_patch"
    "\<And>v. map name (objects v) = map name (objects w) \<Longrightarrow>
       f v = (res, v\<lparr>objects := apply_patch P (objects v), console := console v @ out\<rparr>)"
  using assms unfolding effect_def by blast

lemma effect_names:
  assumes "effect (map name (objects w)) H f"
  shows "map name (objects (snd (f w))) = map name (objects w)"
proof -
  from assms obtain res P out where
    "f w = (res, w\<lparr>objects := apply_patch P (objects w), console := console w @ out\<rparr>)"
    by (rule effect_run) blast
  then show ?thesis by simp
qed

lemma effect_more:
  assumes "effect (map name (objects w)) H f"
  shows "map scene_object.more (objects (snd (f w))) = map scene_object.more (objects w)"
proof -
  from assms obtain res P out where
    "f w = (res, w\<lparr>objects := apply_patch P (objects w), console := console w @ out\<rparr>)"
    by (rule effect_run) blast
  then show ?thesis by (auto intro: nth_equalityI)
qed

lemma effect_frame:
  assumes "effect (map name (objects w)) H f" and "i < length (objects w)" and "i \<notin> H"
  shows "objects (snd (f w)) ! i = objects w ! i"
proof -
  from assms(1) obtain res P out where
    P: "\<And>i. i \<notin> H \<Longrightarrow> P i = no_patch" and
    "f w = (res, w\<lparr>objects := apply_patch P (objects w), console := console w @ out\<rparr>)"
    by (rule effect_run) blast
  then show ?thesis using assms(2,3) by simp
qed

lemma not_handle:
  assumes "i < length os" and "name (os ! i) \<notin> K"
  shows "i \<notin> handles (map name os) K"
proof
  assume "i \<in> handles (map name os) K"
  then obtain n where "n \<in> K" and "index_of (map name os) n = Some i"
    unfolding handles_def by blast
  with assms(1) have "name (os ! i) = n" by (auto dest: index_of_Some)
  with \<open>n \<in> K\<close> assms(2) show False by simp
qed

lemma main_same_path:
  "fs1 state_path = fs2 state_path \<Longrightarrow>
   restore_assembled_state json_load fs1 w = restore_assembled_state json_load fs2 w"
  by (simp add: restore_assembled_state_def)

lemma and_then_Inl [simp]: "and_then (Inl e, w) f = (Inl e, w)"
  by (simp add: and_then_def)

lemma and_then_Inr [simp]: "and_then (Inr u, w) f = f w"
  by (simp add: and_then_def)

lemma to_vector_as_triple:
  "to_vector v = (case as_triple v of None \<Rightarrow> Inl HostRejection | Some t \<Rightarrow> Inr t)"
  by (induction v rule: as_triple.induct) simp_all

lemma assign_ok:
  assumes "field_triple r key = Some t"
  shows "assign upd i r key w = (Inr (), w\<lparr>objects := (objects w)[i := upd t (objects w ! i)]\<rparr>)"
proof (cases r)
  case (JObject kvs)
  with assms show ?thesis
    by (auto simp: assign_def setattr_def to_vector_as_triple split: option.splits)
qed (use assms in simp_all)

lemma assign_bad:
  assumes "field_triple r key = None"
  shows "\<exists>e. assign upd i r key w = (Inl e, w)"
proof (cases r)
  case (JObject kvs)
  with assms show ?thesis
    by (auto simp: assign_def setattr_def to_vector_as_triple split: option.splits)
qed (simp_all add: assign_def)

lemma entry_skip:
  "objects_get (objects w) n = None \<Longrightarrow> restore_entry w (n, r) = (Inr (), w)"
  by (simp add: restore_entry_def)

lemma entry_ok:
  assumes "objects_get (objects w) n = Some i" and "transform_record r = Some (l, e, s)"
  shows "restore_entry w (n, r) =
     (Inr (), w\<lparr>objects := (objects w)[i := (objects w ! i)\<lparr>location := l, rotation_euler := e, scale := s\<rparr>],
               console := console w @ [''Restored '' @ n]\<rparr>)"
proof -
  from assms(2) have f: "field_triple r ''location'' = Some l"
    "field_triple r ''rotation_euler'' = Some e" "field_triple r ''scale'' = Some s"
    by (auto simp: transform_record_def split: option.splits)
  from assms(1) have i: "i < length (objects w)" by (auto dest: objects_get_Some)
  show ?thesis
    by (simp add: restore_entry_def assms(1) assign_ok [OF f(1)] assign_ok [OF f(2)]
        assign_ok [OF f(3)] print_def i)
qed

lemma entry_bad:
  assumes "objects_get (objects w) n = Some i" and "transform_record r = None"
  shows "\<exists>err. fst (restore_entry w (n, r)) = Inl err"
proof (cases "field_triple r ''location''")
  case None
  from assign_bad [OF None] obtain err where
    "assign (\<lambda>t ob. ob\<lparr>location := t\<rparr>) i r ''location'' w = (Inl err, w)" by blast
  then show ?thesis by (simp add: restore_entry_def assms(1))
next
  case l: (Some l)
  let ?w1 = "w\<lparr>objects := (objects w)[i := (objects w ! i)\<lparr>location := l\<rparr>]\<rparr>"
  show ?thesis
  proof (cases "field_triple r ''rotation_euler''")
    case None
    from assign_bad [OF None] obtain err where
      "assign (\<lambda>t ob. ob\<lparr>rotation_euler := t\<rparr>) i r ''rotation_euler'' ?w1 = (Inl err, ?w1)" by blast
    then show ?thesis by (simp add: restore_entry_def assms(1) assign_ok [OF l])
  next
    case e: (Some e)
    let ?w2 = "?w1\<lparr>objects := (objects ?w1)[i := (objects ?w1 ! i)\<lparr>rotation_euler := e\<rparr>]\<rparr>"
    from assms(2) l e have None: "field_triple r ''scale'' = None"
      by (auto simp: transform_record_def split: option.splits)
    from assign_bad [OF None] obtain err where
      "assign (\<lambda>t ob. ob\<lparr>scale := t\<rparr>) i r ''scale'' ?w2 = (Inl err, ?w2)" by blast
    then show ?thesis by (simp add: restore_entry_def assms(1) assign_ok [OF l] assign_ok [OF e])
  qed
qed

lemma entry_names:
  "map name (objects (snd (restore_entry w kv))) = map name (objects w)"
  by (rule effect_names [OF effect_entry])

lemma entry_get:
  "restore_entry w kv = (res, w') \<Longrightarrow> objects_get (objects w') n = objects_get (objects w) n"
  using entry_names [of w kv] by (simp add: objects_get_def)

lemma items_frame:
  assumes "i < length (objects w)" and "name (objects w ! i) \<notin> fst ` set kvs"
  shows "objects (snd (restore_items w kvs)) ! i = objects w ! i"
  by (rule effect_frame [OF effect_items assms(1) not_handle [OF assms]])

lemma well_shaped_Cons:
  "well_shaped os ((n, r) # kvs) \<longleftrightarrow>
     (objects_get os n \<noteq> None \<longrightarrow> transform_record r \<noteq> None) \<and> well_shaped os kvs"
  by (simp add: well_shaped_def)

lemma well_shaped_names:
  "map name os' = map name os \<Longrightarrow> well_shaped os' kvs = well_shaped os kvs"
  by (simp add: well_shaped_def objects_get_def)

lemma names_update:
  "map name (os[i := (os ! i)\<lparr>location := l, rotation_euler := e, scale := s\<rparr>]) = map name os"
proof (cases "i < length os")
  case True
  then show ?thesis by (intro nth_equalityI) (auto simp: nth_list_update)
next
  case False
  then show ?thesis by (simp add: list_update_beyond)
qed

lemma items_returns_iff:
  "fst (restore_items w kvs) = Inr () \<longleftrightarrow> well_shaped (objects w) kvs"
proof (induction kvs arbitrary: w)
  case Nil
  show ?case by (simp add: well_shaped_def)
next
  case (Cons kv kvs)
  obtain n r where kv: "kv = (n, r)" by (cases kv)
  show ?case
  proof (cases "objects_get (objects w) n")
    case None
    then show ?thesis by (simp add: kv entry_skip Cons.IH well_shaped_Cons)
  next
    case (Some i)
    show ?thesis
    proof (cases "transform_record r")
      case None
      from entry_bad [OF Some None] obtain err where "fst (restore_entry w (n, r)) = Inl err" ..
      then obtain w1 where "restore_entry w (n, r) = (Inl err, w1)"
        by (cases "restore_entry w (n, r)") simp
      then show ?thesis by (simp add: kv well_shaped_Cons Some None)
    next
      case t: (Some t)
      obtain l e s where "t = (l, e, s)" by (cases t)
      with t have rec: "transform_record r = Some (l, e, s)" by simp
      let ?w1 = "w\<lparr>objects := (objects w)[i := (objects w ! i)\<lparr>location := l, rotation_euler := e, scale := s\<rparr>],
               console := console w @ [''Restored '' @ n]\<rparr>"
      show ?thesis
        by (simp add: kv entry_ok [OF Some rec] Cons.IH well_shaped_Cons rec
            well_shaped_names [OF names_update])
    qed
  qed
qed

lemma reports_names:
  "map name os' = map name os \<Longrightarrow> reports os' kvs = reports os kvs"
  by (simp add: reports_def objects_get_def)

lemma items_console:
  "well_shaped (objects w) kvs \<Longrightarrow>
   console (snd (restore_items w kvs)) = console w @ reports (objects w) kvs"
proof (induction kvs arbitrary: w)
  case Nil
  show ?case by (simp add: reports_def)
next
  case (Cons kv kvs)
  obtain n r where kv: "kv = (n, r)" by (cases kv)
  from Cons.prems have tl: "well_shaped (objects w) kvs" by (simp add: kv well_shaped_Cons)
  show ?case
  proof (cases "objects_get (objects w) n")
    case None
    then show ?thesis by (simp add: kv entry_skip Cons.IH [OF tl] reports_def)
  next
    case (Some i)
    with Cons.prems obtain l e s where rec: "transform_record r = Some (l, e, s)"
      by (auto simp: kv well_shaped_Cons)
    let ?w1 = "w\<lparr>objects := (objects w)[i := (objects w ! i)\<lparr>location := l, rotation_euler := e, scale := s\<rparr>],
               console := console w @ [''Restored '' @ n]\<rparr>"
    have tl1: "well_shaped (objects ?w1) kvs"
      using tl by (simp add: well_shaped_names [OF names_update])
    have "console (snd (restore_items ?w1 kvs)) = console ?w1 @ reports (objects ?w1) kvs"
      by (rule Cons.IH [OF tl1])
    also have "\<dots> = console w @ (''Restored '' @ n) # reports (objects w) kvs"
      by (simp add: reports_names [OF names_update])
    finally show ?thesis
      by (simp add: kv entry_ok [OF Some rec] reports_def Some)
  qed
qed

lemma entry_returns:
  assumes "well_shaped (objects w) ((n, r) # kvs)"
  obtains w1 where "restore_entry w (n, r) = (Inr (), w1)"
    and "map name (objects w1) = map name (objects w)"
proof (cases "objects_get (objects w) n")
  case None
  then show ?thesis using that [of w] by (simp add: entry_skip)
next
  case (Some i)
  with assms obtain l e s where rec: "transform_record r = Some (l, e, s)"
    by (auto simp: well_shaped_Cons)
  show ?thesis
    by (rule that [OF entry_ok [OF Some rec]]) (simp add: names_update)
qed

lemma items_assigns:
  assumes "distinct (map fst kvs)" and "well_shaped (objects w) kvs"
    and "(n, r) \<in> set kvs" and "objects_get (objects w) n = Some i"
  shows "transform_record r =
     Some (location (objects (snd (restore_items w kvs)) ! i),
           rotation_euler (objects (snd (restore_items w kvs)) ! i),
           scale (objects (snd (restore_items w kvs)) ! i))"
  using assms
proof (induction kvs arbitrary: w)
  case Nil
  then show ?case by simp
next
  case (Cons kv kvs)
  obtain m q where kv: "kv = (m, q)" by (cases kv)
  from Cons.prems(1) have dist: "distinct (map fst kvs)" and fresh: "m \<notin> fst ` set kvs"
    by (simp_all add: kv)
  from Cons.prems(2) have tl: "well_shaped (objects w) kvs"
    by (simp add: kv well_shaped_Cons)
  from Cons.prems(4) have i: "i < length (objects w)" and ni: "name (objects w ! i) = n"
    by (auto dest: objects_get_Some)
  show ?case
  proof (cases "(n, r) = (m, q)")
    case True
    then have nm: "m = n" and rq: "q = r" by simp_all
    from Cons.prems(2,4) obtain l e s where rec: "transform_record r = Some (l, e, s)"
      by (auto simp: kv nm rq well_shaped_Cons)
    let ?w1 = "w\<lparr>objects := (objects w)[i := (objects w ! i)\<lparr>location := l, rotation_euler := e, scale := s\<rparr>],
               console := console w @ [''Restored '' @ n]\<rparr>"
    have step: "restore_items w (kv # kvs) = restore_items ?w1 kvs"
      by (simp add: kv nm rq entry_ok [OF Cons.prems(4) rec])
    have "objects (snd (restore_items ?w1 kvs)) ! i = objects ?w1 ! i"
      by (rule items_frame) (use i ni fresh nm in simp_all)
    then have "objects (snd (restore_items ?w1 kvs)) ! i =
        (objects w ! i)\<lparr>location := l, rotation_euler := e, scale := s\<rparr>"
      using i by simp
    then show ?thesis unfolding step by (simp add: rec)
  next
    case False
    with Cons.prems(3) have mem: "(n, r) \<in> set kvs" by (auto simp: kv)
    from Cons.prems(2) obtain w1 where w1: "restore_entry w (m, q) = (Inr (), w1)"
      and names: "map name (objects w1) = map name (objects w)"
      unfolding kv by (rule entry_returns)
    have step: "restore_items w (kv # kvs) = restore_items w1 kvs"
      by (simp add: kv w1)
    have tl1: "well_shaped (objects w1) kvs"
      using tl by (simp add: well_shaped_names [OF names])
    have get1: "objects_get (objects w1) n = Some i"
      using Cons.prems(4) by (simp add: objects_get_def names)
    show ?thesis
      unfolding step by (rule Cons.IH [OF dist tl1 mem get1])
  qed
qed

lemma items_skip_unmatched:
  "objects_get (objects w) n = None \<Longrightarrow>
   restore_items w (pre @ (n, r) # post) = restore_items w (pre @ post)"
proof (induction pre arbitrary: w)
  case Nil
  then show ?case by (simp add: entry_skip)
next
  case (Cons kv pre)
  obtain res w1 where step: "restore_entry w kv = (res, w1)"
    by (cases "restore_entry w kv")
  show ?case
  proof (cases res)
    case (Inl e)
    then show ?thesis by (simp add: step)
  next
    case (Inr u)
    from Cons.prems have "objects_get (objects w1) n = None"
      by (simp add: entry_get [OF step])
    then have "restore_items w1 (pre @ (n, r) # post) = restore_items w1 (pre @ post)"
      by (rule Cons.IH)
    then show ?thesis by (simp add: step Inr)
  qed
qed

lemma and_then_assoc:
  "and_then (and_then r f) g = and_then r (\<lambda>w. and_then (f w) g)"
  by (cases r) (auto simp: and_then_def split: sum.splits)

lemma items_append:
  "restore_items w (xs @ ys) = and_then (restore_items w xs) (\<lambda>w. restore_items w ys)"
  by (induction xs arbitrary: w) (simp_all add: and_then_assoc)

lemma items_returns:
  assumes "well_shaped (objects w) kvs"
  obtains w1 where "restore_items w kvs = (Inr (), w1)"
    and "map name (objects w1) = map name (objects w)"
proof -
  from assms have "fst (restore_items w kvs) = Inr ()" by (simp add: items_returns_iff)
  then have "restore_items w kvs = (Inr (), snd (restore_items w kvs))"
    by (cases "restore_items w kvs") simp
  moreover have "map name (objects (snd (restore_items w kvs))) = map name (objects w)"
    by (rule effect_names [OF effect_items])
  ultimately show ?thesis by (rule that)
qed

lemma assign_raises:
  assumes "field_triple r key = None"
  shows "assign upd i r key w = (Inl (raised r key), w)"
proof (cases r)
  case (JObject kvs)
  with assms show ?thesis
    by (auto simp: assign_def setattr_def to_vector_as_triple split: option.splits)
qed (simp_all add: assign_def)

lemma entry_fails:
  assumes "objects_get (objects w) n = Some i" and "transform_record r = None"
  shows "restore_entry w (n, r) =
     (case field_triple r ''location'' of
        None \<Rightarrow> (Inl (raised r ''location''), w)
      | Some l \<Rightarrow>
          (case field_triple r ''rotation_euler'' of
             None \<Rightarrow>
               (Inl (raised r ''rotation_euler''),
                w\<lparr>objects := (objects w)[i := (objects w ! i)\<lparr>location := l\<rparr>]\<rparr>)
           | Some e \<Rightarrow>
               (Inl (raised r ''scale''),
                w\<lparr>objects := (objects w)[i := (objects w ! i)\<lparr>location := l, rotation_euler := e\<rparr>]\<rparr>)))"
proof (cases "field_triple r ''location''")
  case None
  then show ?thesis
    by (simp add: restore_entry_def assms(1) assign_raises [OF None])
next
  case l: (Some l)
  show ?thesis
  proof (cases "field_triple r ''rotation_euler''")
    case None
    then show ?thesis
      by (simp add: restore_entry_def assms(1) l assign_ok [OF l] assign_raises [OF None])
  next
    case e: (Some e)
    from assms(2) l e have None: "field_triple r ''scale'' = None"
      by (auto simp: transform_record_def split: option.splits)
    from assms(1) have i: "i < length (objects w)" by (auto dest: objects_get_Some)
    show ?thesis
      by (simp add: restore_entry_def assms(1) l e assign_ok [OF l] assign_ok [OF e]
          assign_raises [OF None] i)
  qed
qed

lemma main_returns_iff:
  "fst (restore_assembled_state json_load fs w) = Inr () \<longleftrightarrow>
     fs state_path = None \<or>
     (\<exists>doc kvs. fs state_path = Some (File doc) \<and> json_load doc = Inr (JObject kvs) \<and>
        well_shaped (objects w) kvs)"
proof (cases "fs state_path")
  case None
  then show ?thesis by (simp add: restore_assembled_state_def)
next
  case (Some node)
  show ?thesis
  proof (cases node)
    case Directory
    with Some show ?thesis by (simp add: restore_assembled_state_def)
  next
    case (File doc)
    show ?thesis
    proof (cases "json_load doc")
      case (Inl e)
      with Some File show ?thesis by (simp add: restore_assembled_state_def)
    next
      case (Inr state)
      show ?thesis
      proof (cases state)
        case (JObject kvs)
        with Some File Inr show ?thesis
          by (simp add: restore_assembled_state_def items_returns_iff)
      qed (use Some File Inr in \<open>simp_all add: restore_assembled_state_def\<close>)
    qed
  qed
qed

section \<open>Missing file, unreadable document, empty document\<close>

text \<open>
  C2. When the state path does not exist the call returns normally, the registry is
  untouched, and exactly one line, naming the path, has been printed.
\<close>

theorem missing_file_reported:
  "fs state_path = None \<Longrightarrow>
   restore_assembled_state json_load fs w =
     (Inr (), w\<lparr>console := console w @ [''Error: '' @ state_path @ '' not found.'']\<rparr>)"
  by (simp add: restore_assembled_state_def print_def)

theorem missing_file_reported_witness:
  "(\<lambda>path. None) state_path = None \<and>
   restore_assembled_state demo_load (\<lambda>path. None) demo_world =
     (Inr (), demo_world\<lparr>console := [''Error: '' @ state_path @ '' not found.'']\<rparr>)"
  using missing_file_reported [of "\<lambda>path. None" demo_load demo_world]
  by (simp add: demo_world_def)

text \<open>
  C5. When the file is there and the parser raises, the same exception leaves
  \<open>restore_assembled_state\<close>, and the world is as it was: no entry has been applied.
\<close>

theorem parse_error_propagates:
  "fs state_path = Some (File doc) \<Longrightarrow> json_load doc = Inl e \<Longrightarrow>
   restore_assembled_state json_load fs w = (Inl e, w)"
  by (simp add: restore_assembled_state_def)

theorem parse_error_propagates_witness:
  "demo_fs ''{'' state_path = Some (File ''{'') \<and> demo_load ''{'' = Inl JSONDecodeError \<and>
   restore_assembled_state demo_load (demo_fs ''{'') demo_world = (Inl JSONDecodeError, demo_world)"
proof -
  have f: "demo_fs ''{'' state_path = Some (File ''{'')" by (simp add: demo_fs_def)
  have l: "demo_load ''{'' = Inl JSONDecodeError" by (simp add: demo_load_def)
  from f l parse_error_propagates [where fs = "demo_fs ''{''" and json_load = demo_load and w = demo_world, OF f l] show ?thesis by blast
qed

text \<open>
  C7. When the document is the empty object, the call returns normally and the world is
  as it was: no object is changed and nothing is printed, so no "Restored" line either.
\<close>

theorem empty_state_no_effect:
  "fs state_path = Some (File doc) \<Longrightarrow> json_load doc = Inr (JObject []) \<Longrightarrow>
   restore_assembled_state json_load fs w = (Inr (), w)"
  by (simp add: restore_assembled_state_def)

theorem empty_state_no_effect_witness:
  "demo_fs ''{}'' state_path = Some (File ''{}'') \<and> demo_load ''{}'' = Inr (JObject []) \<and>
   restore_assembled_state demo_load (demo_fs ''{}'') demo_world = (Inr (), demo_world)"
proof -
  have f: "demo_fs ''{}'' state_path = Some (File ''{}'')" by (simp add: demo_fs_def)
  have l: "demo_load ''{}'' = Inr (JObject [])" by (simp add: demo_load_def)
  from f l empty_state_no_effect [where fs = "demo_fs ''{}''" and json_load = demo_load and w = demo_world, OF f l] show ?thesis by blast
qed

section \<open>What a pass over the saved state does\<close>

text \<open>
  C1. Let the file hold a saved state (a dict, so no key twice) in which every name has
  an object in the registry and every value is a transform record. Then the call returns
  normally, and afterwards the object found under each name has exactly the record's
  three triples as its \<open>location\<close>, \<open>rotation_euler\<close> and \<open>scale\<close>, whatever they were
  before.
\<close>

theorem restore_assigns_record_values:
  assumes "fs state_path = Some (File doc)"
    and "json_load doc = Inr (JObject kvs)"
    and "distinct (map fst kvs)"
    and "\<forall>(n, r) \<in> set kvs. objects_get (objects w) n \<noteq> None \<and> transform_record r \<noteq> None"
    and "(n, r) \<in> set kvs"
  shows "fst (restore_assembled_state json_load fs w) = Inr () \<and>
    (\<exists>i. objects_get (objects (snd (restore_assembled_state json_load fs w))) n = Some i \<and>
       transform_record r =
         Some (location (objects (snd (restore_assembled_state json_load fs w)) ! i),
               rotation_euler (objects (snd (restore_assembled_state json_load fs w)) ! i),
               scale (objects (snd (restore_assembled_state json_load fs w)) ! i)))"
proof -
  have run: "restore_assembled_state json_load fs w = restore_items w kvs"
    by (simp add: restore_assembled_state_def assms(1,2))
  from assms(4) have shaped: "well_shaped (objects w) kvs"
    unfolding well_shaped_def by blast
  from assms(4,5) obtain i where i: "objects_get (objects w) n = Some i" by blast
  have "map name (objects (snd (restore_items w kvs))) = map name (objects w)"
    by (rule effect_names [OF effect_items])
  then have "objects_get (objects (snd (restore_items w kvs))) n = Some i"
    using i by (simp add: objects_get_def)
  moreover have "fst (restore_items w kvs) = Inr ()"
    using shaped by (simp add: items_returns_iff)
  moreover note items_assigns [OF assms(3) shaped assms(5) i]
  ultimately show ?thesis unfolding run by blast
qed

theorem restore_assigns_record_values_witness:
  "demo_fs ''obj1'' state_path = Some (File ''obj1'') \<and>
   demo_load ''obj1'' = Inr (JObject [(''Obj1'', obj1_record)]) \<and>
   distinct (map fst [(''Obj1'', obj1_record)]) \<and>
   (''Obj1'', obj1_record) \<in> set [(''Obj1'', obj1_record)] \<and>
   objects_get (objects demo_world) ''Obj1'' = Some 0 \<and>
   location (objects demo_world ! 0) = (7, 8, 9) \<and>
   transform_record obj1_record = Some ((1, 2, 3), (0, 0, 0), (1, 1, 1)) \<and>
   fst (restore_assembled_state demo_load (demo_fs ''obj1'') demo_world) = Inr () \<and>
   location (objects (snd (restore_assembled_state demo_load (demo_fs ''obj1'') demo_world)) ! 0)
     = (1, 2, 3)"
proof -
  let ?kvs = "[(''Obj1'', obj1_record)]"
  let ?w' = "snd (restore_assembled_state demo_load (demo_fs ''obj1'') demo_world)"
  have f: "demo_fs ''obj1'' state_path = Some (File ''obj1'')" by (simp add: demo_fs_def)
  have l: "demo_load ''obj1'' = Inr (JObject ?kvs)" by (simp add: demo_load_def)
  have d: "distinct (map fst ?kvs)" by simp
  have g: "objects_get (objects demo_world) ''Obj1'' = Some 0"
    by (simp add: objects_get_def demo_world_def)
  have o: "location (objects demo_world ! 0) = (7, 8, 9)" by (simp add: demo_world_def)
  have t: "transform_record obj1_record = Some ((1, 2, 3), (0, 0, 0), (1, 1, 1))"
    by (simp add: transform_record_def obj1_record_def)
  have a: "\<forall>(n, r) \<in> set ?kvs.
      objects_get (objects demo_world) n \<noteq> None \<and> transform_record r \<noteq> None"
    by (simp add: g t)
  have m: "(''Obj1'', obj1_record) \<in> set ?kvs" by simp
  from restore_assigns_record_values
    [where fs = "demo_fs ''obj1''" and json_load = demo_load and w = demo_world, OF f l d a m]
  have ret: "fst (restore_assembled_state demo_load (demo_fs ''obj1'') demo_world) = Inr ()"
    and "\<exists>i. objects_get (objects ?w') ''Obj1'' = Some i \<and>
       transform_record obj1_record =
         Some (location (objects ?w' ! i), rotation_euler (objects ?w' ! i), scale (objects ?w' ! i))"
    by blast+
  then obtain i where i: "objects_get (objects ?w') ''Obj1'' = Some i"
    and v: "transform_record obj1_record =
         Some (location (objects ?w' ! i), rotation_euler (objects ?w' ! i), scale (objects ?w' ! i))"
    by blast
  have "map name (objects ?w') = map name (objects demo_world)"
    by (rule effect_names [OF effect_main])
  with i g have "i = 0" by (simp add: objects_get_def)
  with v t have "location (objects ?w' ! 0) = (1, 2, 3)" by simp
  with f l d m g o t ret show ?thesis by blast
qed

text \<open>
  C3. An entry whose name has no object in the registry is passed over: the whole run,
  outcome, objects and printed lines alike, is the run on the saved state without that
  entry, so nothing is reported or raised for it and the entries after it are processed
  as before. No object is created by any run: the registry holds as many objects as
  before, under the same names.
\<close>

theorem unmatched_entry_skipped:
  assumes "objects_get (objects w) n = None"
    and "fs state_path = Some (File doc)"
    and "json_load doc = Inr (JObject (pre @ (n, r) # post))"
    and "fs' state_path = Some (File doc')"
    and "json_load doc' = Inr (JObject (pre @ post))"
  shows "restore_assembled_state json_load fs w = restore_assembled_state json_load fs' w \<and>
    length (objects (snd (restore_assembled_state json_load fs w))) = length (objects w) \<and>
    map name (objects (snd (restore_assembled_state json_load fs w))) = map name (objects w)"
proof -
  have "restore_assembled_state json_load fs w = restore_items w (pre @ (n, r) # post)"
    by (simp add: restore_assembled_state_def assms(2,3))
  also have "\<dots> = restore_items w (pre @ post)"
    using assms(1) by (rule items_skip_unmatched)
  also have "\<dots> = restore_assembled_state json_load fs' w"
    by (simp add: restore_assembled_state_def assms(4,5))
  finally have same: "restore_assembled_state json_load fs w = restore_assembled_state json_load fs' w" .
  have names: "map name (objects (snd (restore_assembled_state json_load fs w))) = map name (objects w)"
    by (rule effect_names [OF effect_main])
  from arg_cong [OF names, of length]
  have "length (objects (snd (restore_assembled_state json_load fs w))) = length (objects w)"
    by simp
  with same names show ?thesis by blast
qed

theorem unmatched_entry_skipped_witness:
  "objects_get (objects demo_world) ''Gone'' = None \<and>
   demo_fs ''lamp'' state_path = Some (File ''lamp'') \<and>
   demo_load ''lamp'' =
     Inr (JObject ([(''Obj1'', obj1_record)] @ (''Gone'', obj1_record) # [(''Camera'', obj1_record)])) \<and>
   demo_fs ''lamp_present'' state_path = Some (File ''lamp_present'') \<and>
   demo_load ''lamp_present'' =
     Inr (JObject ([(''Obj1'', obj1_record)] @ [(''Camera'', obj1_record)])) \<and>
   restore_assembled_state demo_load (demo_fs ''lamp'') demo_world =
     restore_assembled_state demo_load (demo_fs ''lamp_present'') demo_world \<and>
   length (objects (snd (restore_assembled_state demo_load (demo_fs ''lamp'') demo_world))) = 2 \<and>
   console (snd (restore_assembled_state demo_load (demo_fs ''lamp'') demo_world)) =
     [''Restored Obj1'', ''Restored Camera'']"
proof -
  let ?run = "restore_assembled_state demo_load (demo_fs ''lamp'') demo_world"
  have g: "objects_get (objects demo_world) ''Gone'' = None"
    by (simp add: objects_get_def demo_world_def)
  have f: "demo_fs ''lamp'' state_path = Some (File ''lamp'')" by (simp add: demo_fs_def)
  have l: "demo_load ''lamp'' =
     Inr (JObject ([(''Obj1'', obj1_record)] @ (''Gone'', obj1_record) # [(''Camera'', obj1_record)]))"
    by (simp add: demo_load_def)
  have f': "demo_fs ''lamp_present'' state_path = Some (File ''lamp_present'')"
    by (simp add: demo_fs_def)
  have l': "demo_load ''lamp_present'' =
     Inr (JObject ([(''Obj1'', obj1_record)] @ [(''Camera'', obj1_record)]))"
    by (simp add: demo_load_def)
  note inst = unmatched_entry_skipped
    [where w = demo_world and fs = "demo_fs ''lamp''" and fs' = "demo_fs ''lamp_present''"
       and json_load = demo_load, OF g f l f' l']
  from inst have same: "?run = restore_assembled_state demo_load (demo_fs ''lamp_present'') demo_world"
    by blast
  from inst have "length (objects (snd ?run)) = length (objects demo_world)" by blast
  then have len: "length (objects (snd ?run)) = 2" by (simp add: demo_world_def)
  have out: "console (snd ?run) = [''Restored Obj1'', ''Restored Camera'']"
    by (simp add: restore_assembled_state_def f demo_load_def demo_world_def restore_entry_def
        objects_get_def assign_def setattr_def obj1_record_def print_def)
  from g f l f' l' same len out show ?thesis by blast
qed

text \<open>
  C4. A second run on the world the first run left, with the file system unchanged, ends
  with the registry the first run ended with, and with the same outcome. This holds for
  every file system, parser and world, also when the run stops on an exception.
\<close>

theorem restore_twice_same_objects:
  "objects (snd (restore_assembled_state json_load fs (snd (restore_assembled_state json_load fs w))))
     = objects (snd (restore_assembled_state json_load fs w)) \<and>
   fst (restore_assembled_state json_load fs (snd (restore_assembled_state json_load fs w)))
     = fst (restore_assembled_state json_load fs w)"
proof -
  from effect_main [of "map name (objects w)" json_load fs]
  obtain res P out where
    f: "\<And>v :: ('a, 'b) world. map name (objects v) = map name (objects w) \<Longrightarrow>
       restore_assembled_state json_load fs v =
         (res, v\<lparr>objects := apply_patch P (objects v), console := console v @ out\<rparr>)"
    by (rule effect_run) blast
  show ?thesis by (simp add: f apply_patch_twice)
qed

theorem restore_twice_same_objects_witness:
  "fst (restore_assembled_state demo_load (demo_fs ''broken'') demo_world) = Inl (KeyError ''rotation_euler'') \<and>
   location (objects (snd (restore_assembled_state demo_load (demo_fs ''broken'') demo_world)) ! 0) = (1, 2, 3) \<and>
   objects (snd (restore_assembled_state demo_load (demo_fs ''broken'')
       (snd (restore_assembled_state demo_load (demo_fs ''broken'') demo_world))))
     = objects (snd (restore_assembled_state demo_load (demo_fs ''broken'') demo_world))"
proof -
  have run: "restore_assembled_state demo_load (demo_fs ''broken'') demo_world =
    (Inl (KeyError ''rotation_euler''),
     demo_world\<lparr>objects := (objects demo_world)[0 := (objects demo_world ! 0)\<lparr>location := (1, 2, 3)\<rparr>]\<rparr>)"
    by (simp add: restore_assembled_state_def demo_fs_def demo_load_def demo_world_def
        restore_entry_def objects_get_def assign_def setattr_def location_only_def)
  have "location (objects (snd (restore_assembled_state demo_load (demo_fs ''broken'') demo_world)) ! 0) = (1, 2, 3)"
    unfolding run by (simp add: demo_world_def)
  with run restore_twice_same_objects [of demo_load "demo_fs ''broken''" demo_world]
  show ?thesis by simp
qed

text \<open>
  C6. Records are not checked before they are applied, and nothing but the missing file
  is handled. First, the call returns normally only when the state path is missing or
  when the file holds a dict in which every entry that finds its object has a well-formed
  record: a directory, a parser exception, a document that is no dict and a record of the
  wrong shape all end in an exception. Second, when the first record of the wrong shape
  belongs to the entry \<open>(n, r)\<close>, the call ends in the exception of the first
  assignment that fails, in the world that the pass over the entries before it has left,
  with the assignments of this entry that came before the failing one applied, no line
  printed for it, and no later entry looked at.
\<close>

theorem records_not_validated:
  "(fst (restore_assembled_state json_load fs w) = Inr () \<longleftrightarrow>
      fs state_path = None \<or>
      (\<exists>doc kvs. fs state_path = Some (File doc) \<and> json_load doc = Inr (JObject kvs) \<and>
         (\<forall>(n, r) \<in> set kvs. objects_get (objects w) n \<noteq> None \<longrightarrow> transform_record r \<noteq> None)))
   \<and>
   (fs state_path = Some (File doc) \<and> json_load doc = Inr (JObject (pre @ (n, r) # post)) \<and>
    fs' state_path = Some (File doc') \<and> json_load doc' = Inr (JObject pre) \<and>
    (\<forall>(m, q) \<in> set pre. objects_get (objects w) m \<noteq> None \<longrightarrow> transform_record q \<noteq> None) \<and>
    objects_get (objects w) n = Some i \<and> transform_record r = None \<longrightarrow>
      (\<exists>w1. restore_assembled_state json_load fs' w = (Inr (), w1) \<and>
         restore_assembled_state json_load fs w =
           (case field_triple r ''location'' of
              None \<Rightarrow> (Inl (raised r ''location''), w1)
            | Some l \<Rightarrow>
                (case field_triple r ''rotation_euler'' of
                   None \<Rightarrow>
                     (Inl (raised r ''rotation_euler''),
                      w1\<lparr>objects := (objects w1)[i := (objects w1 ! i)\<lparr>location := l\<rparr>]\<rparr>)
                 | Some e \<Rightarrow>
                     (Inl (raised r ''scale''),
                      w1\<lparr>objects := (objects w1)
                           [i := (objects w1 ! i)\<lparr>location := l, rotation_euler := e\<rparr>]\<rparr>)))))"
proof (intro conjI impI)
  show "fst (restore_assembled_state json_load fs w) = Inr () \<longleftrightarrow>
      fs state_path = None \<or>
      (\<exists>doc kvs. fs state_path = Some (File doc) \<and> json_load doc = Inr (JObject kvs) \<and>
         (\<forall>(n, r) \<in> set kvs. objects_get (objects w) n \<noteq> None \<longrightarrow> transform_record r \<noteq> None))"
    by (simp only: main_returns_iff well_shaped_def)
next
  assume hyps: "fs state_path = Some (File doc) \<and> json_load doc = Inr (JObject (pre @ (n, r) # post)) \<and>
    fs' state_path = Some (File doc') \<and> json_load doc' = Inr (JObject pre) \<and>
    (\<forall>(m, q) \<in> set pre. objects_get (objects w) m \<noteq> None \<longrightarrow> transform_record q \<noteq> None) \<and>
    objects_get (objects w) n = Some i \<and> transform_record r = None"
  then have f: "fs state_path = Some (File doc)"
    and l: "json_load doc = Inr (JObject (pre @ (n, r) # post))"
    and f': "fs' state_path = Some (File doc')"
    and l': "json_load doc' = Inr (JObject pre)"
    and found: "objects_get (objects w) n = Some i"
    and bad: "transform_record r = None"
    by simp_all
  from hyps have "\<forall>(m, q) \<in> set pre. objects_get (objects w) m \<noteq> None \<longrightarrow> transform_record q \<noteq> None"
    by simp
  then have "well_shaped (objects w) pre"
    by (simp only: well_shaped_def)
  then obtain w1 where pre: "restore_items w pre = (Inr (), w1)"
    and names: "map name (objects w1) = map name (objects w)"
    by (rule items_returns)
  have run': "restore_assembled_state json_load fs' w = (Inr (), w1)"
    by (simp add: restore_assembled_state_def f' l' pre)
  from found have found1: "objects_get (objects w1) n = Some i"
    by (simp add: objects_get_def names)
  have "restore_assembled_state json_load fs w = restore_items w (pre @ (n, r) # post)"
    by (simp add: restore_assembled_state_def f l)
  also have "\<dots> = and_then (restore_entry w1 (n, r)) (\<lambda>w. restore_items w post)"
    by (simp add: items_append pre)
  also have "\<dots> = restore_entry w1 (n, r)"
    unfolding entry_fails [OF found1 bad] by (simp split: option.splits)
  finally have "restore_assembled_state json_load fs w = restore_entry w1 (n, r)" .
  with run' show "\<exists>w1. restore_assembled_state json_load fs' w = (Inr (), w1) \<and>
         restore_assembled_state json_load fs w =
           (case field_triple r ''location'' of
              None \<Rightarrow> (Inl (raised r ''location''), w1)
            | Some l \<Rightarrow>
                (case field_triple r ''rotation_euler'' of
                   None \<Rightarrow>
                     (Inl (raised r ''rotation_euler''),
                      w1\<lparr>objects := (objects w1)[i := (objects w1 ! i)\<lparr>location := l\<rparr>]\<rparr>)
                 | Some e \<Rightarrow>
                     (Inl (raised r ''scale''),
                      w1\<lparr>objects := (objects w1)
                           [i := (objects w1 ! i)\<lparr>location := l, rotation_euler := e\<rparr>]\<rparr>)))"
    by (simp only: entry_fails [OF found1 bad]) blast
qed

theorem records_not_validated_witness:
  "restore_assembled_state lamp_load (demo_fs ''lamp'') lamp_world =
     (Inl HostRejection,
      \<lparr>objects =
         [\<lparr>name = ''Base'', location = (1, 2, 3), rotation_euler = (0, 0, 0), scale = (1, 1, 1)\<rparr>,
          \<lparr>name = ''Shade'', location = (1, 2, 3), rotation_euler = (5, 5, 5), scale = (6, 6, 6)\<rparr>,
          \<lparr>name = ''Bulb'', location = (3, 3, 3), rotation_euler = (2, 2, 2), scale = (1, 1, 1)\<rparr>],
       console = [''Restored Base'']\<rparr>) \<and>
   fst (restore_assembled_state lamp_load (\<lambda>path. Some Directory) lamp_world) \<noteq> Inr () \<and>
   fst (restore_assembled_state lamp_load (demo_fs ''list'') lamp_world) \<noteq> Inr () \<and>
   fst (restore_assembled_state lamp_load (demo_fs ''{'') lamp_world) \<noteq> Inr ()"
proof -
  let ?pre = "[(''Base'', obj1_record)]"
  let ?post = "[(''Bulb'', obj1_record)]"
  let ?w1 = "\<lparr>objects =
         [\<lparr>name = ''Base'', location = (1, 2, 3), rotation_euler = (0, 0, 0), scale = (1, 1, 1)\<rparr>,
          \<lparr>name = ''Shade'', location = (4, 4, 4), rotation_euler = (5, 5, 5), scale = (6, 6, 6)\<rparr>,
          \<lparr>name = ''Bulb'', location = (3, 3, 3), rotation_euler = (2, 2, 2), scale = (1, 1, 1)\<rparr>],
       console = [''Restored Base'']\<rparr> :: (int, unit) world"
  have f: "demo_fs ''lamp'' state_path = Some (File ''lamp'')" by (simp add: demo_fs_def)
  have l: "lamp_load ''lamp'' = Inr (JObject (?pre @ (''Shade'', half_done) # ?post))"
    by (simp add: lamp_load_def)
  have f': "demo_fs ''base'' state_path = Some (File ''base'')" by (simp add: demo_fs_def)
  have l': "lamp_load ''base'' = Inr (JObject ?pre)" by (simp add: lamp_load_def)
  have t: "transform_record obj1_record \<noteq> None"
    by (simp add: transform_record_def obj1_record_def)
  have a: "\<forall>(m, q) \<in> set ?pre. objects_get (objects lamp_world) m \<noteq> None \<longrightarrow> transform_record q \<noteq> None"
    by (simp add: transform_record_def obj1_record_def)
  have g: "objects_get (objects lamp_world) ''Shade'' = Some 1"
    by (simp add: objects_get_def lamp_world_def)
  have b: "transform_record half_done = None"
    by (simp add: transform_record_def half_done_def)
  have loc: "field_triple half_done ''location'' = Some (1, 2, 3)"
    by (simp add: half_done_def)
  have rot: "field_triple half_done ''rotation_euler'' = None"
    by (simp add: half_done_def)
  have err: "raised half_done ''rotation_euler'' = HostRejection"
    by (simp add: half_done_def)
  have before: "restore_assembled_state lamp_load (demo_fs ''base'') lamp_world = (Inr (), ?w1)"
    by (simp add: restore_assembled_state_def f' l' restore_entry_def objects_get_def
        lamp_world_def assign_def setattr_def obj1_record_def print_def)
  note inst = records_not_validated
    [where fs = "demo_fs ''lamp''" and json_load = lamp_load and w = lamp_world
       and fs' = "demo_fs ''base''" and doc = "''lamp''" and doc' = "''base''"
       and pre = ?pre and post = ?post and n = "''Shade''" and r = half_done and i = 1]
  from inst f l f' l' a g b obtain w1 where
    "restore_assembled_state lamp_load (demo_fs ''base'') lamp_world = (Inr (), w1)"
    and run: "restore_assembled_state lamp_load (demo_fs ''lamp'') lamp_world =
      (Inl (raised half_done ''rotation_euler''),
       w1\<lparr>objects := (objects w1)[1 := (objects w1 ! 1)\<lparr>location := (1, 2, 3)\<rparr>]\<rparr>)"
    unfolding loc rot by auto
  with before have "w1 = ?w1" by simp
  with run err have main: "restore_assembled_state lamp_load (demo_fs ''lamp'') lamp_world =
     (Inl HostRejection,
      \<lparr>objects =
         [\<lparr>name = ''Base'', location = (1, 2, 3), rotation_euler = (0, 0, 0), scale = (1, 1, 1)\<rparr>,
          \<lparr>name = ''Shade'', location = (1, 2, 3), rotation_euler = (5, 5, 5), scale = (6, 6, 6)\<rparr>,
          \<lparr>name = ''Bulb'', location = (3, 3, 3), rotation_euler = (2, 2, 2), scale = (1, 1, 1)\<rparr>],
       console = [''Restored Base'']\<rparr>)"
    by simp
  have dir: "fst (restore_assembled_state lamp_load (\<lambda>path. Some Directory) lamp_world) \<noteq> Inr ()"
    using records_not_validated
      [where fs = "\<lambda>path. Some Directory" and json_load = lamp_load and w = lamp_world]
    by simp
  have lst: "fst (restore_assembled_state lamp_load (demo_fs ''list'') lamp_world) \<noteq> Inr ()"
    using records_not_validated
      [where fs = "demo_fs ''list''" and json_load = lamp_load and w = lamp_world]
    by (auto simp: demo_fs_def lamp_load_def)
  have bad: "fst (restore_assembled_state lamp_load (demo_fs ''{'') lamp_world) \<noteq> Inr ()"
    using records_not_validated
      [where fs = "demo_fs ''{''" and json_load = lamp_load and w = lamp_world]
    by (auto simp: demo_fs_def lamp_load_def)
  from main dir lst bad show ?thesis by blast
qed

text \<open>
  C8. With the file holding a dict whose matched entries have well-formed records, the
  call returns \<open>None\<close> (the outcome carries no value), and what it has added to the
  console is one line \<open>Restored <name>\<close> for each entry whose name has an object in the
  registry, in the order of the dict, and nothing else.
\<close>

theorem restored_names_reported:
  assumes "fs state_path = Some (File doc)"
    and "json_load doc = Inr (JObject kvs)"
    and "\<forall>(n, r) \<in> set kvs. objects_get (objects w) n \<noteq> None \<longrightarrow> transform_record r \<noteq> None"
  shows "fst (restore_assembled_state json_load fs w) = Inr () \<and>
    console (snd (restore_assembled_state json_load fs w)) =
      console w @ map (\<lambda>n. ''Restored '' @ n)
                    (filter (\<lambda>n. objects_get (objects w) n \<noteq> None) (map fst kvs))"
proof -
  have run: "restore_assembled_state json_load fs w = restore_items w kvs"
    by (simp add: restore_assembled_state_def assms(1,2))
  from assms(3) have shaped: "well_shaped (objects w) kvs"
    unfolding well_shaped_def by blast
  from shaped have "fst (restore_items w kvs) = Inr ()"
    by (simp add: items_returns_iff)
  moreover from items_console [OF shaped]
  have "console (snd (restore_items w kvs)) =
      console w @ map (\<lambda>n. ''Restored '' @ n)
                    (filter (\<lambda>n. objects_get (objects w) n \<noteq> None) (map fst kvs))"
    by (simp add: reports_def)
  ultimately show ?thesis unfolding run by blast
qed

theorem restored_names_reported_witness:
  "demo_fs ''lamp'' state_path = Some (File ''lamp'') \<and>
   demo_load ''lamp'' =
     Inr (JObject [(''Obj1'', obj1_record), (''Gone'', obj1_record), (''Camera'', obj1_record)]) \<and>
   transform_record obj1_record \<noteq> None \<and>
   fst (restore_assembled_state demo_load (demo_fs ''lamp'') demo_world) = Inr () \<and>
   console (snd (restore_assembled_state demo_load (demo_fs ''lamp'') demo_world)) =
     [''Restored Obj1'', ''Restored Camera'']"
proof -
  let ?kvs = "[(''Obj1'', obj1_record), (''Gone'', obj1_record), (''Camera'', obj1_record)]"
  have f: "demo_fs ''lamp'' state_path = Some (File ''lamp'')" by (simp add: demo_fs_def)
  have l: "demo_load ''lamp'' = Inr (JObject ?kvs)" by (simp add: demo_load_def)
  have t: "transform_record obj1_record \<noteq> None"
    by (simp add: transform_record_def obj1_record_def)
  have a: "\<forall>(n, r) \<in> set ?kvs. objects_get (objects demo_world) n \<noteq> None \<longrightarrow> transform_record r \<noteq> None"
    by (simp add: transform_record_def obj1_record_def)
  have c: "console demo_world @ map (\<lambda>n. ''Restored '' @ n)
       (filter (\<lambda>n. objects_get (objects demo_world) n \<noteq> None) (map fst ?kvs)) =
     [''Restored Obj1'', ''Restored Camera'']"
    by (simp add: demo_world_def objects_get_def)
  from restored_names_reported
    [where fs = "demo_fs ''lamp''" and json_load = demo_load and w = demo_world, OF f l a]
  have "fst (restore_assembled_state demo_load (demo_fs ''lamp'') demo_world) = Inr ()"
    and "console (snd (restore_assembled_state demo_load (demo_fs ''lamp'') demo_world)) =
     [''Restored Obj1'', ''Restored Camera'']"
    unfolding c by blast+
  with f l t show ?thesis by blast
qed

section \<open>What a run leaves alone, and what it depends on\<close>

text \<open>
  C9. After any run, normal or not, the registry holds the same objects under the same
  names, and every attribute of an object besides \<open>location\<close>, \<open>rotation_euler\<close> and
  \<open>scale\<close> (the part \<open>more\<close> of the record) is as before. An object whose name is not a
  key of the saved state is unchanged altogether.
\<close>

theorem restore_frame:
  "map name (objects (snd (restore_assembled_state json_load fs w))) = map name (objects w) \<and>
   map scene_object.more (objects (snd (restore_assembled_state json_load fs w))) =
     map scene_object.more (objects w) \<and>
   (\<forall>i < length (objects w).
      (\<forall>doc kvs. fs state_path = Some (File doc) \<and> json_load doc = Inr (JObject kvs) \<longrightarrow>
         name (objects w ! i) \<notin> fst ` set kvs) \<longrightarrow>
      objects (snd (restore_assembled_state json_load fs w)) ! i = objects w ! i)"
proof (intro conjI allI impI)
  show "map name (objects (snd (restore_assembled_state json_load fs w))) = map name (objects w)"
    by (rule effect_names [OF effect_main])
  show "map scene_object.more (objects (snd (restore_assembled_state json_load fs w))) =
     map scene_object.more (objects w)"
    by (rule effect_more [OF effect_main])
next
  fix i
  assume i: "i < length (objects w)"
    and out: "\<forall>doc kvs. fs state_path = Some (File doc) \<and> json_load doc = Inr (JObject kvs) \<longrightarrow>
         name (objects w ! i) \<notin> fst ` set kvs"
  from out have "name (objects w ! i) \<notin> saved_keys json_load fs"
    unfolding saved_keys_def by blast
  with i have "i \<notin> handles (map name (objects w)) (saved_keys json_load fs)"
    by (rule not_handle)
  with effect_main i show "objects (snd (restore_assembled_state json_load fs w)) ! i = objects w ! i"
    by (rule effect_frame)
qed

theorem restore_frame_witness:
  "name (objects demo_world ! 1) = ''Camera'' \<and>
   demo_load ''obj1'' = Inr (JObject [(''Obj1'', obj1_record)]) \<and>
   map name (objects (snd (restore_assembled_state demo_load (demo_fs ''obj1'') demo_world))) =
     [''Obj1'', ''Camera''] \<and>
   objects (snd (restore_assembled_state demo_load (demo_fs ''obj1'') demo_world)) ! 1 =
     \<lparr>name = ''Camera'', location = (0, 0, 5), rotation_euler = (0, 0, 0), scale = (3, 3, 3)\<rparr>"
proof -
  let ?w' = "snd (restore_assembled_state demo_load (demo_fs ''obj1'') demo_world)"
  have c: "name (objects demo_world ! 1) = ''Camera''" by (simp add: demo_world_def)
  have l: "demo_load ''obj1'' = Inr (JObject [(''Obj1'', obj1_record)])"
    by (simp add: demo_load_def)
  have i: "1 < length (objects demo_world)" by (simp add: demo_world_def)
  have k: "\<forall>doc kvs. demo_fs ''obj1'' state_path = Some (File doc) \<and> demo_load doc = Inr (JObject kvs) \<longrightarrow>
         name (objects demo_world ! 1) \<notin> fst ` set kvs"
    by (auto simp: demo_fs_def l demo_world_def)
  note inst = restore_frame [of demo_load "demo_fs ''obj1''" demo_world]
  from inst have "map name (objects ?w') = map name (objects demo_world)" by blast
  then have n: "map name (objects ?w') = [''Obj1'', ''Camera'']" by (simp add: demo_world_def)
  from inst i k have "objects ?w' ! 1 = objects demo_world ! 1" by blast
  then have o: "objects ?w' ! 1 =
     \<lparr>name = ''Camera'', location = (0, 0, 5), rotation_euler = (0, 0, 0), scale = (3, 3, 3)\<rparr>"
    by (simp add: demo_world_def)
  from c l n o show ?thesis by blast
qed

text \<open>
  C10. The run is a function of the entry of the file system at the state path (absent, or
  its contents) and of the registry: two runs that agree on these end with the same
  outcome and the same registry, and add the same lines to their consoles.
\<close>

theorem restore_deterministic:
  assumes "fs1 state_path = fs2 state_path" and "objects w1 = objects w2"
  shows "\<exists>out.
     fst (restore_assembled_state json_load fs1 w1) = fst (restore_assembled_state json_load fs2 w2) \<and>
     objects (snd (restore_assembled_state json_load fs1 w1)) =
       objects (snd (restore_assembled_state json_load fs2 w2)) \<and>
     console (snd (restore_assembled_state json_load fs1 w1)) = console w1 @ out \<and>
     console (snd (restore_assembled_state json_load fs2 w2)) = console w2 @ out"
proof -
  from effect_main [of "map name (objects w1)" json_load fs1]
  obtain res P out where
    f: "\<And>v :: ('a, 'b) world. map name (objects v) = map name (objects w1) \<Longrightarrow>
       restore_assembled_state json_load fs1 v =
         (res, v\<lparr>objects := apply_patch P (objects v), console := console v @ out\<rparr>)"
    by (rule effect_run) blast
  have "restore_assembled_state json_load fs2 w2 = restore_assembled_state json_load fs1 w2"
    by (rule main_same_path) (simp add: assms(1))
  then show ?thesis
    by (intro exI [where x = out]) (simp add: f assms(2))
qed

theorem restore_deterministic_witness:
  "demo_fs ''obj1'' state_path =
     (\<lambda>path. if path = state_path then Some (File ''obj1'') else Some Directory) state_path \<and>
   objects demo_world = objects (demo_world\<lparr>console := [''earlier'']\<rparr>) \<and>
   (\<exists>out.
     fst (restore_assembled_state demo_load (demo_fs ''obj1'') demo_world) =
       fst (restore_assembled_state demo_load
              (\<lambda>path. if path = state_path then Some (File ''obj1'') else Some Directory)
              (demo_world\<lparr>console := [''earlier'']\<rparr>)) \<and>
     objects (snd (restore_assembled_state demo_load (demo_fs ''obj1'') demo_world)) =
       objects (snd (restore_assembled_state demo_load
              (\<lambda>path. if path = state_path then Some (File ''obj1'') else Some Directory)
              (demo_world\<lparr>console := [''earlier'']\<rparr>))) \<and>
     console (snd (restore_assembled_state demo_load (demo_fs ''obj1'') demo_world)) =
       console demo_world @ out \<and>
     console (snd (restore_assembled_state demo_load
              (\<lambda>path. if path = state_path then Some (File ''obj1'') else Some Directory)
              (demo_world\<lparr>console := [''earlier'']\<rparr>))) =
       console (demo_world\<lparr>console := [''earlier'']\<rparr>) @ out)"
proof -
  let ?fs2 = "\<lambda>path. if path = state_path then Some (File ''obj1'') else Some Directory"
  let ?w2 = "demo_world\<lparr>console := [''earlier'']\<rparr>"
  have p: "demo_fs ''obj1'' state_path = ?fs2 state_path" by (simp add: demo_fs_def)
  have o: "objects demo_world = objects ?w2" by simp
  from p o restore_deterministic
    [where ?fs1.0 = "demo_fs ''obj1''" and ?fs2.0 = ?fs2 and ?w1.0 = demo_world and ?w2.0 = ?w2
       and json_load = demo_load, OF p o]
  show ?thesis by blast
qed

end
